theory Spec2Isabelle
  imports Complex_Main "HOL-Library.Sublist"
begin

section \<open>The Lissajous sketch: data\<close>

text \<open>
  The sketch class \<open>LissajousSketch\<close> (the version with the \<open>mode\<close> setter and the
  three modes) is embedded as a record of its fields and one function per method.
  JavaScript numbers are modelled as real numbers: rounding, infinities and NaN of the
  IEEE doubles are outside the model. The frame counters (\<open>timer\<close>, \<open>frame\<close>) start
  at zero and only ever are incremented or reset, so they are natural numbers; the two
  durations come from the configuration surface and may be fractional.
\<close>

text \<open>Interface \<open>Params\<close> (and \<open>Phase\<close>, which has the same shape): fields a, b, delta.\<close>

record Params =
  par_a :: real
  par_b :: real
  par_delta :: real

text \<open>\<open>keyof Params\<close>, and the indexed read and write \<open>p[key]\<close>, \<open>p[key] = v\<close>.\<close>

datatype key = KA | KB | KDelta

fun getP :: "key \<Rightarrow> Params \<Rightarrow> real" where
  "getP KA p = par_a p"
| "getP KB p = par_b p"
| "getP KDelta p = par_delta p"

fun setP :: "key \<Rightarrow> real \<Rightarrow> Params \<Rightarrow> Params" where
  "setP KA v p = p\<lparr>par_a := v\<rparr>"
| "setP KB v p = p\<lparr>par_b := v\<rparr>"
| "setP KDelta v p = p\<lparr>par_delta := v\<rparr>"

datatype mode = Classic | Harmonic | Table

datatype anim_state = HOLD | TRANSITION

text \<open>
  The fields of the class. Field \<open>t\<close> is named \<open>time_t\<close> here, \<open>_mode\<close> is \<open>mode\<close>
  (what the getter returns). \<open>phases\<close> is a private field that is never assigned after
  its initialiser; it is kept as a field so that statements can range over every
  keyframe sequence.
\<close>

record Sketch =
  time_t :: real
  phases :: "Params list"
  currentPhaseIndex :: int
  direction :: int
  stiffness :: real
  damping :: real
  mass :: real
  mode :: mode
  holdDuration :: real
  transitionDuration :: real
  state :: anim_state
  timer :: nat
  frame :: nat
  currentParams :: Params
  currentVelocity :: Params
  targetParams :: Params


definition zeroParams :: Params where
  "zeroParams = \<lparr>par_a = 0, par_b = 0, par_delta = 0\<rparr>"

text \<open>The five keyframes of the source and the state the constructor builds.\<close>

definition defaultPhases :: "Params list" where
  "defaultPhases =
     [\<lparr>par_a = 1, par_b = 1, par_delta = pi / 2\<rparr>,
      \<lparr>par_a = 1, par_b = 2, par_delta = pi / 2\<rparr>,
      \<lparr>par_a = 1, par_b = 3, par_delta = pi / 2\<rparr>,
      \<lparr>par_a = 3, par_b = 4, par_delta = pi / 2\<rparr>,
      \<lparr>par_a = 3, par_b = 5, par_delta = pi / 2\<rparr>]"

definition newSketch :: Sketch where
  "newSketch =
     \<lparr>time_t = 0, phases = defaultPhases, currentPhaseIndex = 0, direction = 1,
      stiffness = 0.02, damping = 0.2, mass = 1, mode = Classic,
      holdDuration = 2 * 60, transitionDuration = 2 * 60,
      state = HOLD, timer = 0, frame = 0,
      currentParams = \<lparr>par_a = 1, par_b = 1, par_delta = pi / 2\<rparr>,
      currentVelocity = zeroParams,
      targetParams = \<lparr>par_a = 1, par_b = 1, par_delta = pi / 2\<rparr>\<rparr>"

section \<open>The mode setter\<close>

text \<open>
  \<open>set mode(v)\<close>: when the value differs from the stored one, store it and replace the
  velocity by a fresh zero object; the position is left alone (the snap is commented out
  in the source).
\<close>

definition set_mode :: "mode \<Rightarrow> Sketch \<Rightarrow> Sketch" where
  "set_mode v s =
     (if mode s \<noteq> v then s\<lparr>mode := v, currentVelocity := zeroParams\<rparr> else s)"

section \<open>The keyframe sequencer\<close>

text \<open>
  \<open>switchTarget\<close>. The index and the direction are JavaScript numbers that only take
  integer values. \<open>this.phases[nextIndex]\<close> is \<open>undefined\<close> when the index is outside
  the array, and the next frame then raises a TypeError when the engine reads a field of
  the target: that outcome is the value \<open>None\<close>. The \<open>console.log\<close> is not modelled.
\<close>

definition phaseAt :: "Params list \<Rightarrow> int \<Rightarrow> Params option" where
  "phaseAt ps i = (if 0 \<le> i \<and> i < int (length ps) then Some (ps ! nat i) else None)"

definition switchTarget :: "Sketch \<Rightarrow> Sketch option" where
  "switchTarget s =
     (let nextIndex = currentPhaseIndex s + direction s;
          s1 = (if nextIndex \<ge> int (length (phases s))
                then s\<lparr>direction := - 1\<rparr>
                else if nextIndex < 0 then s\<lparr>direction := 1\<rparr> else s);
          nextIndex1 = (if nextIndex \<ge> int (length (phases s))
                        then int (length (phases s)) - 2
                        else if nextIndex < 0 then 1 else nextIndex)
      in case phaseAt (phases s1) nextIndex1 of
           None \<Rightarrow> None
         | Some p \<Rightarrow> Some (s1\<lparr>currentPhaseIndex := nextIndex1, targetParams := p\<rparr>))"

text \<open>
  The cursor invariant of the sequencer: the index is inside the sequence and the
  direction is one step up or one step down.
\<close>

definition cursorOk :: "Sketch \<Rightarrow> bool" where
  "cursorOk s \<longleftrightarrow>
     0 \<le> currentPhaseIndex s \<and> currentPhaseIndex s < int (length (phases s)) \<and>
     (direction s = 1 \<or> direction s = - 1)"

text \<open>Repeated calls of \<open>switchTarget\<close>, stopping at the first failure.\<close>

fun switchTargets :: "nat \<Rightarrow> Sketch \<Rightarrow> Sketch option" where
  "switchTargets 0 s = Some s"
| "switchTargets (Suc n) s =
     (case switchTarget s of None \<Rightarrow> None | Some s1 \<Rightarrow> switchTargets n s1)"

section \<open>The spring-damper engine\<close>

text \<open>
  \<open>applySpringForce(key)\<close>, one field per call. The constants of the harmonic branch
  are those of the source; \<open>Math.pow(distNorm, 6.0)\<close> is the sixth power of a number
  between 0 and 1. The function is written in the order of the source: displacement,
  the linear force and damping factor, the harmonic override with its early snap that
  returns before integrating, the Euler step, and the final snap, whose distance test
  reads the displacement computed before the step and whose velocity test reads the
  velocity after it. Division by a zero mass (Infinity or NaN in JavaScript) is outside
  the model; the configuration surface keeps the mass positive.
\<close>

definition maxStiffness :: real where
  "maxStiffness = 1.0"

definition minStiffness :: real where
  "minStiffness = 0.00001"

definition tensionPower :: nat where
  "tensionPower = 6"

definition dampZeta :: real where
  "dampZeta = 4.0"

text \<open>The two assignments of a snap: \<open>current[key] = target[key]; velocity[key] = 0\<close>.\<close>

definition snapField :: "key \<Rightarrow> Sketch \<Rightarrow> Sketch" where
  "snapField k s =
     s\<lparr>currentParams := setP k (getP k (targetParams s)) (currentParams s),
       currentVelocity := setP k 0 (currentVelocity s)\<rparr>"

definition applySpringForce :: "key \<Rightarrow> Sketch \<Rightarrow> Sketch" where
  "applySpringForce k s =
     (let displacement = getP k (targetParams s) - getP k (currentParams s);
          distAbs = \<bar>displacement\<bar>;
          distNorm = min distAbs 1.0;
          k_eff = minStiffness + (maxStiffness - minStiffness) * distNorm ^ tensionPower;
          c_crit = 2 * sqrt (mass s * k_eff);
          force = (if mode s = Harmonic then displacement * k_eff
                   else displacement * stiffness s);
          dampingFactor = (if mode s = Harmonic then c_crit * dampZeta else damping s)
      in if mode s = Harmonic \<and> distAbs < 0.00001 \<and> \<bar>getP k (currentVelocity s)\<bar> < 0.00001
         then snapField k s
         else
           (let dampingForce = getP k (currentVelocity s) * dampingFactor;
                accel = (force - dampingForce) / mass s;
                v1 = getP k (currentVelocity s) + accel;
                s1 = s\<lparr>currentVelocity := setP k v1 (currentVelocity s)\<rparr>;
                s2 = s1\<lparr>currentParams := setP k (getP k (currentParams s1) + v1) (currentParams s1)\<rparr>;
                snapThreshold = (if mode s = Harmonic then 0.0001 else 0.001);
                velThreshold = (if mode s = Harmonic then 0.0001 else 0.001)
            in if distAbs < snapThreshold \<and> \<bar>getP k (currentVelocity s2)\<bar> < velThreshold
               then snapField k s2
               else s2))"


section \<open>The animation state machine\<close>



section \<open>Drawing in harmonic mode\<close>

text \<open>
  The calls made on the 2D canvas context are recorded in order as a list of commands;
  the picture is a function of that list.
\<close>

datatype cmd =
    BeginPath
  | MoveTo real real
  | LineTo real real
  | Stroke
  | StrokeStyle string
  | FillStyle string
  | LineWidth real
  | LineCap string
  | GlobalAlpha real
  | SetLineDash "real list"
  | FillRect real real real real

record Theme =
  foreground :: string
  background :: string

text \<open>\<open>drawSpring\<close>, simplified in the source to one straight line.\<close>

definition drawSpring :: "real \<Rightarrow> real \<Rightarrow> real \<Rightarrow> real \<Rightarrow> nat \<Rightarrow> string \<Rightarrow> real \<Rightarrow> cmd list" where
  "drawSpring x1 y1 x2 y2 coils color width =
     [BeginPath, StrokeStyle color, LineWidth width, MoveTo x1 y1, LineTo x2 y2, Stroke]"

text \<open>
  One iteration of the sampling loop of \<open>drawHarmonic\<close>; the flag \<open>firstPoint\<close> is set
  exactly in the iteration with \<open>i = 0\<close>.
\<close>

definition harmonicSample :: "real \<Rightarrow> real \<Rightarrow> real \<Rightarrow> nat \<Rightarrow> nat \<Rightarrow> cmd" where
  "harmonicSample centerX centerY scale samples i =
     (let maxT = pi * 2;
          hA = 1; hB = 1; hDelta = pi / 2;
          t = (real i / real samples) * maxT;
          R = 1;
          x = R * sin (hA * t + hDelta);
          y = R * sin (hB * t);
          sx = centerX + x * scale;
          sy = centerY + y * scale
      in if i = 0 then MoveTo sx sy else LineTo sx sy)"

definition drawHarmonic :: "Sketch \<Rightarrow> real \<Rightarrow> real \<Rightarrow> Theme \<Rightarrow> cmd list" where
  "drawHarmonic s width height theme =
     (let centerX = width / 2;
          centerY = height / 2;
          scale = min width height * 0.35;
          samples = 2000;
          R = 1; physA = 1; physB = 1; physDelta = pi / 2;
          px_val = R * sin (physA * time_t s + physDelta);
          py_val = R * sin (physB * time_t s);
          px = centerX + px_val * scale;
          py = centerY + py_val * scale;
          oscOffset = 1.2;
          oscX_Y = centerY - scale * oscOffset;
          oscY_X = centerX - scale * oscOffset;
          mechanismColor = ''#000000'';
          strokeWidth = width * 0.002;
          anchorX = centerX - scale;
          massX = centerX + px_val * scale;
          anchorY = centerY - scale;
          massY = centerY + py_val * scale;
          boxSize = 20
      in [BeginPath, StrokeStyle (foreground theme), LineWidth (width * 0.004),
          LineCap ''round'', GlobalAlpha 1.0]
         @ map (harmonicSample centerX centerY scale samples) [0 ..< samples + 1]
         @ [Stroke,
            StrokeStyle mechanismColor, LineWidth strokeWidth,
            BeginPath, MoveTo (centerX - scale) oscX_Y, LineTo (centerX + scale) oscX_Y, Stroke,
            BeginPath, MoveTo oscY_X (centerY - scale), LineTo oscY_X (centerY + scale), Stroke]
         @ drawSpring anchorX oscX_Y massX oscX_Y 20 mechanismColor strokeWidth
         @ drawSpring oscY_X anchorY oscY_X massY 20 mechanismColor strokeWidth
         @ [FillStyle mechanismColor,
            FillRect (massX - boxSize / 2) (oscX_Y - boxSize / 2) boxSize boxSize,
            FillRect (oscY_X - boxSize / 2) (massY - boxSize / 2) boxSize boxSize,
            StrokeStyle mechanismColor, SetLineDash [], LineWidth strokeWidth,
            BeginPath, MoveTo massX oscX_Y, LineTo massX py, Stroke,
            BeginPath, MoveTo oscY_X massY, LineTo px massY, Stroke,
            FillStyle mechanismColor,
            FillRect (px - boxSize / 2) (py - boxSize / 2) boxSize boxSize])"

section \<open>Double-precision arithmetic\<close>

text \<open>
  The capture loop compares times computed in IEEE 754 binary64, and the comparison
  depends on the rounding: 15 frame intervals are not 250 ms there. The operations of
  the loop are therefore modelled with their rounding. \<open>rne\<close> rounds a real to the
  nearest integer, ties to the even one. \<open>fl\<close> rounds a real to the nearest number
  with a significand of 53 bits, ties to even: the result of a binary64 operation is
  \<open>fl\<close> of the exact result. Overflow and subnormal numbers are not modelled; times in
  milliseconds stay far from both.
\<close>

definition rne :: "real \<Rightarrow> int" where
  "rne y =
     (let f = \<lfloor>y\<rfloor>; r = y - of_int f
      in if r < 1 / 2 then f else if r > 1 / 2 then f + 1 else if even f then f else f + 1)"

definition fl :: "real \<Rightarrow> real" where
  "fl x =
     (if x = 0 then 0
      else (let e = \<lfloor>log 2 \<bar>x\<bar>\<rfloor>
            in of_int (rne (x * 2 powr of_int (52 - e))) * 2 powr of_int (e - 52)))"

section \<open>The capture and export pipeline\<close>

text \<open>
  The hook \<open>useCanvasRecorder\<close>. Its state is the flag \<open>isRecording\<close>, the flag
  \<open>loaded\<close> of the encoder, whether \<open>canvasRef.current\<close> is there, and the snapshot
  sequence \<open>framesRef.current\<close>. Every successful \<open>startRecording\<close> creates a closure
  with its own \<open>startTime\<close> and \<open>frameCount\<close> that runs \<open>captureFrame\<close> on animation
  callbacks; the closures are kept in the list \<open>loops\<close>. Times are milliseconds. A
  blob in \<open>frames\<close> is represented by the time of the callback that asked for it. The
  \<open>alert\<close> of the source is recorded in \<open>alerts\<close>.
\<close>

record CaptureLoop =
  startTime :: real
  frameCount :: nat
  bitrate :: nat
  encoding :: bool

record Recorder =
  isRecording :: bool
  loaded :: bool
  canvasPresent :: bool
  frames :: "real list"
  alerts :: "string list"
  loops :: "CaptureLoop list"

text \<open>
  The constants of \<open>startRecording\<close>: \<open>totalDuration = 10000\<close>, \<open>fps = 60\<close> and
  \<open>interval = 1000 / fps\<close>, a binary64 division.
\<close>

definition totalDuration :: real where
  "totalDuration = 10000"

definition fps :: real where
  "fps = 60"

definition interval :: real where
  "interval = fl (1000 / fps)"

definition newLoop :: "real \<Rightarrow> nat \<Rightarrow> CaptureLoop" where
  "newLoop now b = \<lparr>startTime = now, frameCount = 0, bitrate = b, encoding = False\<rparr>"

text \<open>
  \<open>startRecording(bitrate)\<close>, called at time \<open>now\<close> (the value of
  \<open>performance.now()\<close>). It checks the canvas and the encoder, and nothing else.
\<close>

definition startRecording :: "nat \<Rightarrow> real \<Rightarrow> Recorder \<Rightarrow> Recorder" where
  "startRecording b now r =
     (if \<not> canvasPresent r \<or> \<not> loaded r
      then (if \<not> loaded r
            then r\<lparr>alerts := alerts r @ [''Video encoder still loading, please wait...'']\<rparr>
            else r)
      else r\<lparr>isRecording := True, frames := [],
             loops := loops r @ [newLoop now b]\<rparr>)"

text \<open>
  \<open>captureFrame(time)\<close> of one closure. It works on the closure and on the list of
  the snapshots it has taken, that is, of the callback times at which it has called
  \<open>canvas.toBlob\<close>. \<open>elapsed = time - startTime\<close> and \<open>frameCount * interval\<close> are
  binary64 operations. Reaching the total duration calls \<open>encodeVideo\<close> and schedules
  no further callback (\<open>encoding\<close>); otherwise at most one snapshot is taken, the
  counter is incremented with it, and the callback is scheduled again.
\<close>

definition captureFrame :: "real \<Rightarrow> CaptureLoop \<times> real list \<Rightarrow> CaptureLoop \<times> real list" where
  "captureFrame time cf =
     (let c = fst cf; taken = snd cf;
          elapsed = fl (time - startTime c)
      in if elapsed \<ge> totalDuration then (c\<lparr>encoding := True\<rparr>, taken)
         else if elapsed \<ge> fl (real (frameCount c) * interval)
              then (c\<lparr>frameCount := frameCount c + 1\<rparr>, taken @ [time])
              else (c, taken))"

fun runCapture :: "real list \<Rightarrow> CaptureLoop \<times> real list \<Rightarrow> CaptureLoop \<times> real list" where
  "runCapture [] cf = cf"
| "runCapture (time # ts) cf =
     (if encoding (fst cf) then cf else runCapture ts (captureFrame time cf))"

text \<open>
  The callback that \<open>toBlob\<close> calls later with the blob, or with null: only a blob is
  pushed onto \<open>framesRef.current\<close>.
\<close>

definition toBlobCallback :: "real option \<Rightarrow> Recorder \<Rightarrow> Recorder" where
  "toBlobCallback blob r =
     (case blob of None \<Rightarrow> r | Some x \<Rightarrow> r\<lparr>frames := frames r @ [x]\<rparr>)"

text \<open>
  An animation callback of the loop with index \<open>i\<close> of the recorder, as far as the
  recorder sees it: the closure is updated; the blob of a snapshot it takes arrives
  later through \<open>toBlobCallback\<close>. A loop that has gone over to encoding has no
  callback scheduled.
\<close>

definition animationFrame :: "nat \<Rightarrow> real \<Rightarrow> Recorder \<Rightarrow> Recorder" where
  "animationFrame i time r =
     (if i < length (loops r) \<and> \<not> encoding (loops r ! i)
      then r\<lparr>loops := (loops r)[i := fst (captureFrame time (loops r ! i, []))]\<rparr>
      else r)"

text \<open>
  The page component: \<open>handleExport\<close> guards on \<open>isRecording\<close>, bumps \<open>resetKey\<close> and
  sets a timeout of 150 ms that will call \<open>startRecording\<close> with the bitrate of the
  quality tier. The \<open>startRecording\<close> it will call is the closure of the render in
  which the request is made, which holds that render's value of \<open>loaded\<close>; the canvas
  reference, the snapshot sequence and the state setter are read when it runs. A
  pending timeout is the pair of the bitrate and that value of \<open>loaded\<close>;
  \<open>fireTimeout\<close> runs the oldest pending timeout at time \<open>now\<close>.
\<close>

datatype quality = HQ | Q256kb

record Page =
  recorder :: Recorder
  resetKey :: nat
  quality :: quality
  pendingStarts :: "(nat \<times> bool) list"

definition handleExport :: "Page \<Rightarrow> Page" where
  "handleExport p =
     (if isRecording (recorder p) then p
      else (let b = (if quality p = HQ then 25000000 else 350000)
            in p\<lparr>resetKey := resetKey p + 1,
                 pendingStarts := pendingStarts p @ [(b, loaded (recorder p))]\<rparr>))"

definition fireTimeout :: "real \<Rightarrow> Page \<Rightarrow> Page" where
  "fireTimeout now p =
     (case pendingStarts p of
        [] \<Rightarrow> p
      | (b, ld) # rest \<Rightarrow>
          (let r = recorder p;
               r1 = startRecording b now (r\<lparr>loaded := ld\<rparr>)
           in p\<lparr>recorder := r1\<lparr>loaded := loaded r\<rparr>, pendingStarts := rest\<rparr>))"

text \<open>The page before any export, with the encoder loaded and the canvas mounted.\<close>

definition idlePage :: Page where
  "idlePage =
     \<lparr>recorder = \<lparr>isRecording = False, loaded = True, canvasPresent = True, frames = [],
                  alerts = [], loops = []\<rparr>,
      resetKey = 0, quality = HQ, pendingStarts = []\<rparr>"

section \<open>Auxiliary notions for the statements\<close>

text \<open>
  The formulas of the specification for the non-linear profile, written from its words:
  \<open>stiffness_eff = min + (max - min) * clamp(|d|, 0, 1) ^ power\<close> and
  \<open>damping_eff = 2 * sqrt(mass * stiffness_eff) * zeta\<close>.
\<close>

definition spec_clamp :: "real \<Rightarrow> real \<Rightarrow> real \<Rightarrow> real" where
  "spec_clamp x lo hi = max lo (min hi x)"

definition spec_stiffness_eff :: "real \<Rightarrow> real \<Rightarrow> nat \<Rightarrow> real \<Rightarrow> real" where
  "spec_stiffness_eff mn mx pw d = mn + (mx - mn) * (spec_clamp \<bar>d\<bar> 0 1) ^ pw"

definition spec_damping_eff :: "real \<Rightarrow> real \<Rightarrow> real \<Rightarrow> real" where
  "spec_damping_eff m k_eff zeta = 2 * sqrt (m * k_eff) * zeta"

text \<open>
  The Euler step \<open>velocity += accel; current += velocity\<close> on one field, and the
  outcome of a hard snap as seen from outside: the field sits on the target of the
  state before the call and its velocity is zero.
\<close>

definition integrated :: "key \<Rightarrow> real \<Rightarrow> Sketch \<Rightarrow> Sketch" where
  "integrated k accel s =
     s\<lparr>currentVelocity := setP k (getP k (currentVelocity s) + accel) (currentVelocity s),
       currentParams := setP k (getP k (currentParams s) + (getP k (currentVelocity s) + accel))
                          (currentParams s)\<rparr>"

definition snapped :: "key \<Rightarrow> Sketch \<Rightarrow> Sketch \<Rightarrow> bool" where
  "snapped k s s' \<longleftrightarrow>
     getP k (currentParams s') = getP k (targetParams s) \<and> getP k (currentVelocity s') = 0"

text \<open>
  Notions for the statements about the capture loop. \<open>elapsedAt start t\<close> is the
  elapsed time the loop computes at a callback, \<open>boundary k\<close> the value it computes for
  \<open>k * interval\<close>. \<open>callbacksDense start prev ts\<close>: from the elapsed time \<open>prev\<close> on,
  the elapsed time of each callback exceeds that of the one before by at most
  \<open>paceLimit\<close>, 16.66 ms. \<open>wellPaced start ts\<close>: moreover the elapsed time of the first
  callback is between 0 and \<open>paceLimit\<close>. \<open>reachesTotal start ts\<close>: some callback has
  an elapsed time of at least the total duration.
\<close>

definition elapsedAt :: "real \<Rightarrow> real \<Rightarrow> real" where
  "elapsedAt start t = fl (t - start)"

definition paceLimit :: real where
  "paceLimit = 16.66"

fun callbacksDense :: "real \<Rightarrow> real \<Rightarrow> real list \<Rightarrow> bool" where
  "callbacksDense start prev [] = True"
| "callbacksDense start prev (t # ts) =
     (elapsedAt start t - prev \<le> paceLimit \<and> callbacksDense start (elapsedAt start t) ts)"

fun wellPaced :: "real \<Rightarrow> real list \<Rightarrow> bool" where
  "wellPaced start [] = False"
| "wellPaced start (t # ts) =
     (0 \<le> elapsedAt start t \<and> elapsedAt start t \<le> paceLimit \<and>
      callbacksDense start (elapsedAt start t) ts)"

definition reachesTotal :: "real \<Rightarrow> real list \<Rightarrow> bool" where
  "reachesTotal start ts = list_ex (\<lambda>t. elapsedAt start t \<ge> totalDuration) ts"

definition boundary :: "nat \<Rightarrow> real" where
  "boundary k = fl (real k * interval)"

text \<open>
  The invariant of the capture loop started at \<open>start\<close>: the counter equals the number
  of snapshots, it is at most 600, and the snapshot with index \<open>k\<close> was taken at a
  callback whose elapsed time had reached \<open>boundary k\<close>.
\<close>

definition captureInv :: "real \<Rightarrow> CaptureLoop \<times> real list \<Rightarrow> bool" where
  "captureInv start cf \<longleftrightarrow>
     startTime (fst cf) = start \<and>
     frameCount (fst cf) = length (snd cf) \<and>
     frameCount (fst cf) \<le> 600 \<and>
     list_all (\<lambda>(k, t). elapsedAt start t \<ge> boundary k) (enumerate 0 (snd cf))"

section \<open>Properties of the mode setter\<close>

text \<open>
  C9. Setting the mode to a value different from the current one stores the value and
  zeroes the three fields of the velocity; the current and target parameters, the
  sequencer's index and direction, the HOLD/TRANSITION phase and the timer (indeed
  every other field) keep their values. Setting the mode to its current value changes
  nothing.
\<close>

theorem set_mode_effect:
  "(v \<noteq> mode s \<longrightarrow>
      mode (set_mode v s) = v \<and>
      currentVelocity (set_mode v s) = \<lparr>par_a = 0, par_b = 0, par_delta = 0\<rparr> \<and>
      set_mode v s = s\<lparr>mode := v, currentVelocity := zeroParams\<rparr> \<and>
      currentParams (set_mode v s) = currentParams s \<and>
      targetParams (set_mode v s) = targetParams s \<and>
      currentPhaseIndex (set_mode v s) = currentPhaseIndex s \<and>
      direction (set_mode v s) = direction s \<and>
      state (set_mode v s) = state s \<and>
      timer (set_mode v s) = timer s) \<and>
   set_mode (mode s) s = s"
  by (simp add: set_mode_def zeroParams_def)

text \<open>The setter on the constructor's state with a moving velocity, for both cases.\<close>

theorem set_mode_effect_witness:
  "currentVelocity (set_mode Harmonic (newSketch\<lparr>currentVelocity := \<lparr>par_a = 1, par_b = 2, par_delta = 3\<rparr>\<rparr>))
     = \<lparr>par_a = 0, par_b = 0, par_delta = 0\<rparr> \<and>
   currentParams (set_mode Harmonic (newSketch\<lparr>currentVelocity := \<lparr>par_a = 1, par_b = 2, par_delta = 3\<rparr>\<rparr>))
     = \<lparr>par_a = 1, par_b = 1, par_delta = pi / 2\<rparr> \<and>
   timer (set_mode Harmonic (newSketch\<lparr>currentVelocity := \<lparr>par_a = 1, par_b = 2, par_delta = 3\<rparr>\<rparr>)) = 0 \<and>
   set_mode Classic (newSketch\<lparr>currentVelocity := \<lparr>par_a = 1, par_b = 2, par_delta = 3\<rparr>\<rparr>)
     = newSketch\<lparr>currentVelocity := \<lparr>par_a = 1, par_b = 2, par_delta = 3\<rparr>\<rparr>"
  using set_mode_effect [of Harmonic "newSketch\<lparr>currentVelocity := \<lparr>par_a = 1, par_b = 2, par_delta = 3\<rparr>\<rparr>"]
  by (simp add: newSketch_def zeroParams_def)

section \<open>Properties of the sequencer\<close>

lemma switchTarget_step:
  assumes "2 \<le> length (phases s)" and "cursorOk s"
  shows "\<exists>s'. switchTarget s = Some s' \<and> cursorOk s' \<and> phases s' = phases s \<and>
           currentPhaseIndex s' \<noteq> currentPhaseIndex s \<and>
           targetParams s' = phases s ! nat (currentPhaseIndex s') \<and>
           ((direction s' = direction s \<and> currentPhaseIndex s' = currentPhaseIndex s + direction s) \<or>
            (currentPhaseIndex s = int (length (phases s)) - 1 \<and> direction s = 1 \<and>
             direction s' = - 1 \<and> currentPhaseIndex s' = int (length (phases s)) - 2) \<or>
            (currentPhaseIndex s = 0 \<and> direction s = - 1 \<and>
             direction s' = 1 \<and> currentPhaseIndex s' = 1))"
  using assms
  by (auto simp: switchTarget_def cursorOk_def phaseAt_def Let_def)

lemma switchTargets_ok:
  "2 \<le> length (phases s) \<Longrightarrow> cursorOk s \<Longrightarrow>
   \<exists>s'. switchTargets n s = Some s' \<and> cursorOk s' \<and> phases s' = phases s"
proof (induction n arbitrary: s)
  case 0
  then show ?case by simp
next
  case (Suc n)
  from switchTarget_step [OF Suc.prems] obtain s1 where
    s1: "switchTarget s = Some s1" "cursorOk s1" "phases s1 = phases s" by blast
  with Suc.IH [of s1] Suc.prems show ?case by simp
qed


lemma switchTargets_snoc:
  "switchTargets (Suc n) s =
     (case switchTargets n s of None \<Rightarrow> None | Some sn \<Rightarrow> switchTarget sn)"
proof (induction n arbitrary: s)
  case 0
  show ?case by (simp split: option.splits)
next
  case (Suc n)
  show ?case
  proof (cases "switchTarget s")
    case None
    then show ?thesis by simp
  next
    case (Some s1)
    have "switchTargets (Suc (Suc n)) s = switchTargets (Suc n) s1"
      using Some by simp
    also have "\<dots> = (case switchTargets n s1 of None \<Rightarrow> None | Some sn \<Rightarrow> switchTarget sn)"
      by (rule Suc.IH)
    also have "switchTargets n s1 = switchTargets (Suc n) s"
      using Some by simp
    finally show ?thesis .
  qed
qed

text \<open>
  C2. For a keyframe sequence of length at least 2, a cursor index inside it and a
  direction of +1 or -1, one call of \<open>switchTarget\<close> succeeds and yields a cursor that
  is again valid, with an index different from the previous one and the target set to
  the keyframe at the new index. Either the direction is kept and the index moves by
  it, or the cursor was at the last index going up and now goes down from
  \<open>length - 2\<close>, or it was at index 0 going down and now goes up from index 1.
  Hence every number of repeated calls succeeds, stays inside the sequence, and never
  yields the same index twice in a row.
\<close>

theorem switchTarget_pingpong:
  assumes "2 \<le> length (phases s)" and "cursorOk s"
  shows "(\<exists>s'. switchTarget s = Some s' \<and> cursorOk s' \<and> phases s' = phases s \<and>
           currentPhaseIndex s' \<noteq> currentPhaseIndex s \<and>
           targetParams s' = phases s ! nat (currentPhaseIndex s') \<and>
           ((direction s' = direction s \<and> currentPhaseIndex s' = currentPhaseIndex s + direction s) \<or>
            (currentPhaseIndex s = int (length (phases s)) - 1 \<and> direction s = 1 \<and>
             direction s' = - 1 \<and> currentPhaseIndex s' = int (length (phases s)) - 2) \<or>
            (currentPhaseIndex s = 0 \<and> direction s = - 1 \<and>
             direction s' = 1 \<and> currentPhaseIndex s' = 1))) \<and>
         (\<forall>n. \<exists>sn sn'. switchTargets n s = Some sn \<and> switchTargets (Suc n) s = Some sn' \<and>
             cursorOk sn' \<and> currentPhaseIndex sn' \<noteq> currentPhaseIndex sn)"
proof
  show "\<exists>s'. switchTarget s = Some s' \<and> cursorOk s' \<and> phases s' = phases s \<and>
           currentPhaseIndex s' \<noteq> currentPhaseIndex s \<and>
           targetParams s' = phases s ! nat (currentPhaseIndex s') \<and>
           ((direction s' = direction s \<and> currentPhaseIndex s' = currentPhaseIndex s + direction s) \<or>
            (currentPhaseIndex s = int (length (phases s)) - 1 \<and> direction s = 1 \<and>
             direction s' = - 1 \<and> currentPhaseIndex s' = int (length (phases s)) - 2) \<or>
            (currentPhaseIndex s = 0 \<and> direction s = - 1 \<and>
             direction s' = 1 \<and> currentPhaseIndex s' = 1))"
    by (rule switchTarget_step [OF assms])
next
  show "\<forall>n. \<exists>sn sn'. switchTargets n s = Some sn \<and> switchTargets (Suc n) s = Some sn' \<and>
             cursorOk sn' \<and> currentPhaseIndex sn' \<noteq> currentPhaseIndex sn"
  proof
    fix n
    from switchTargets_ok [OF assms, of n] obtain sn where
      sn: "switchTargets n s = Some sn" "cursorOk sn" "phases sn = phases s" by blast
    from switchTarget_step [of sn] sn assms obtain sn' where
      sn': "switchTarget sn = Some sn'" "cursorOk sn'"
           "currentPhaseIndex sn' \<noteq> currentPhaseIndex sn" by auto
    have "switchTargets (Suc n) s = Some sn'"
      using sn(1) sn'(1) by (simp only: switchTargets_snoc option.case)
    with sn sn' show "\<exists>sn sn'. switchTargets n s = Some sn \<and> switchTargets (Suc n) s = Some sn' \<and>
             cursorOk sn' \<and> currentPhaseIndex sn' \<noteq> currentPhaseIndex sn" by blast
  qed
qed

text \<open>The call at the last of the five keyframes of the source, going up.\<close>

theorem switchTarget_pingpong_witness:
  "\<exists>s'. switchTarget (newSketch\<lparr>currentPhaseIndex := 4\<rparr>) = Some s' \<and> cursorOk s' \<and>
         currentPhaseIndex s' = 3 \<and> direction s' = - 1 \<and>
         targetParams s' = \<lparr>par_a = 3, par_b = 4, par_delta = pi / 2\<rparr>"
proof -
  have h1: "2 \<le> length (phases (newSketch\<lparr>currentPhaseIndex := 4\<rparr>))"
    by (simp add: newSketch_def defaultPhases_def)
  have h2: "cursorOk (newSketch\<lparr>currentPhaseIndex := 4\<rparr>)"
    by (simp add: newSketch_def defaultPhases_def cursorOk_def)
  from switchTarget_pingpong [OF h1 h2] obtain s' where
    s': "switchTarget (newSketch\<lparr>currentPhaseIndex := 4\<rparr>) = Some s'" "cursorOk s'"
        "phases s' = phases (newSketch\<lparr>currentPhaseIndex := 4\<rparr>)"
        "targetParams s' = phases (newSketch\<lparr>currentPhaseIndex := 4\<rparr>) ! nat (currentPhaseIndex s')"
        "(direction s' = direction (newSketch\<lparr>currentPhaseIndex := 4\<rparr>) \<and>
          currentPhaseIndex s' = currentPhaseIndex (newSketch\<lparr>currentPhaseIndex := 4\<rparr>)
                                 + direction (newSketch\<lparr>currentPhaseIndex := 4\<rparr>)) \<or>
         (currentPhaseIndex (newSketch\<lparr>currentPhaseIndex := 4\<rparr>)
            = int (length (phases (newSketch\<lparr>currentPhaseIndex := 4\<rparr>))) - 1 \<and>
          direction (newSketch\<lparr>currentPhaseIndex := 4\<rparr>) = 1 \<and>
          direction s' = - 1 \<and>
          currentPhaseIndex s' = int (length (phases (newSketch\<lparr>currentPhaseIndex := 4\<rparr>))) - 2) \<or>
         (currentPhaseIndex (newSketch\<lparr>currentPhaseIndex := 4\<rparr>) = 0 \<and>
          direction (newSketch\<lparr>currentPhaseIndex := 4\<rparr>) = - 1 \<and>
          direction s' = 1 \<and> currentPhaseIndex s' = 1)"
    by blast
  from s'(2,3,5) have idx: "currentPhaseIndex s' = 3 \<and> direction s' = - 1"
    by (auto simp: newSketch_def defaultPhases_def cursorOk_def)
  with s'(4) have "targetParams s' = \<lparr>par_a = 3, par_b = 4, par_delta = pi / 2\<rparr>"
    by (simp add: newSketch_def defaultPhases_def)
  with s'(1,2) idx show ?thesis by blast
qed

section \<open>Properties of the spring-damper engine\<close>

lemma getP_setP [simp]: "getP k (setP k v p) = v"
  by (cases k) simp_all

lemma setP_setP [simp]: "setP k v (setP k w p) = setP k v p"
  by (cases k) simp_all

lemma spec_clamp_abs: "spec_clamp \<bar>d\<bar> 0 1 = min \<bar>d\<bar> 1"
  by (simp add: spec_clamp_def min_def max_def)

lemma harmonic_unfold:
  assumes "mode s = Harmonic"
  shows "applySpringForce k s =
     (let d = getP k (targetParams s) - getP k (currentParams s);
          v = getP k (currentVelocity s);
          k_eff = minStiffness + (maxStiffness - minStiffness) * (min \<bar>d\<bar> 1) ^ tensionPower;
          accel = (d * k_eff - v * (2 * sqrt (mass s * k_eff) * dampZeta)) / mass s
      in if \<bar>d\<bar> < 0.00001 \<and> \<bar>v\<bar> < 0.00001 then snapField k s
         else if \<bar>d\<bar> < 0.0001 \<and> \<bar>v + accel\<bar> < 0.0001 then snapField k (integrated k accel s)
         else integrated k accel s)"
  using assms by (auto simp: applySpringForce_def Let_def integrated_def)

lemma linear_unfold:
  assumes "mode s \<noteq> Harmonic"
  shows "applySpringForce k s =
     (let d = getP k (targetParams s) - getP k (currentParams s);
          v = getP k (currentVelocity s);
          accel = (d * stiffness s - v * damping s) / mass s
      in if \<bar>d\<bar> < 0.001 \<and> \<bar>v + accel\<bar> < 0.001 then snapField k (integrated k accel s)
         else integrated k accel s)"
  using assms by (auto simp: applySpringForce_def Let_def integrated_def)

lemma snapped_snapField: "targetParams s1 = targetParams s \<Longrightarrow> snapped k s (snapField k s1)"
  by (simp add: snapped_def snapField_def)

lemma snapped_integrated:
  "snapped k s (integrated k accel s) \<longleftrightarrow>
     getP k (targetParams s) - getP k (currentParams s) = 0 \<and> getP k (currentVelocity s) + accel = 0"
  by (auto simp: snapped_def integrated_def)

lemma integrated_target [simp]: "targetParams (integrated k accel s) = targetParams s"
  by (simp add: integrated_def)

text \<open>
  C5. In the harmonic profile, for every field and every displacement \<open>d\<close>, a call
  that is not ended by the early snap integrates with the force
  \<open>d * stiffness_eff\<close>, where
  \<open>stiffness_eff = min + (max - min) * clamp(|d|, 0, 1) ^ power\<close> with \<open>power > 1\<close>,
  and with the damping factor \<open>2 * sqrt(mass * stiffness_eff) * zeta\<close> with
  \<open>zeta > 1\<close>: the acceleration is \<open>(force - velocity * damping_eff) / mass\<close>, the
  velocity is increased by it and the current value by the new velocity. The result of
  the call is that integrated state, passed through the final snap test.
\<close>

theorem applySpringForce_harmonic_step:
  assumes "mode s = Harmonic"
    and "\<not> (\<bar>getP k (targetParams s) - getP k (currentParams s)\<bar> < 0.00001 \<and>
            \<bar>getP k (currentVelocity s)\<bar> < 0.00001)"
  shows "1 < tensionPower \<and> 1 < dampZeta \<and>
     (let d = getP k (targetParams s) - getP k (currentParams s);
          v = getP k (currentVelocity s);
          stiffness_eff = spec_stiffness_eff minStiffness maxStiffness tensionPower d;
          force = d * stiffness_eff;
          damping_eff = spec_damping_eff (mass s) stiffness_eff dampZeta;
          accel = (force - v * damping_eff) / mass s
      in applySpringForce k s =
           (if \<bar>d\<bar> < 0.0001 \<and> \<bar>v + accel\<bar> < 0.0001
            then snapField k (integrated k accel s) else integrated k accel s) \<and>
         getP k (currentVelocity (integrated k accel s)) = v + accel \<and>
         getP k (currentParams (integrated k accel s)) = getP k (currentParams s) + (v + accel))"
proof -
  have "1 < tensionPower" "1 < dampZeta"
    by (simp_all add: tensionPower_def dampZeta_def)
  moreover have "getP k (currentVelocity (integrated k accel s)) = getP k (currentVelocity s) + accel"
    "getP k (currentParams (integrated k accel s)) =
       getP k (currentParams s) + (getP k (currentVelocity s) + accel)" for accel
    by (simp_all add: integrated_def)
  ultimately show ?thesis
    using assms(2)
    by (auto simp: harmonic_unfold [OF assms(1)] Let_def spec_stiffness_eff_def
        spec_damping_eff_def spec_clamp_abs)
qed

text \<open>The first step of the transition from the first to the second keyframe, mass 1.\<close>

theorem applySpringForce_harmonic_step_witness:
  "getP KB (currentVelocity (applySpringForce KB
      (newSketch\<lparr>mode := Harmonic, targetParams := \<lparr>par_a = 1, par_b = 2, par_delta = pi / 2\<rparr>\<rparr>))) = 1 \<and>
   getP KB (currentParams (applySpringForce KB
      (newSketch\<lparr>mode := Harmonic, targetParams := \<lparr>par_a = 1, par_b = 2, par_delta = pi / 2\<rparr>\<rparr>))) = 2"
proof -
  let ?s = "newSketch\<lparr>mode := Harmonic, targetParams := \<lparr>par_a = 1, par_b = 2, par_delta = pi / 2\<rparr>\<rparr>"
  have h1: "mode ?s = Harmonic" by simp
  have h2: "\<not> (\<bar>getP KB (targetParams ?s) - getP KB (currentParams ?s)\<bar> < 0.00001 \<and>
            \<bar>getP KB (currentVelocity ?s)\<bar> < 0.00001)"
    by (simp add: newSketch_def)
  show ?thesis
    using applySpringForce_harmonic_step [OF h1 h2]
    by (simp add: Let_def newSketch_def zeroParams_def spec_stiffness_eff_def spec_damping_eff_def
        spec_clamp_def minStiffness_def maxStiffness_def tensionPower_def dampZeta_def
        integrated_def)
qed

lemma snapped_if:
  assumes "0 < t1" and "0 < t2"
  shows "snapped k s
           (if \<bar>getP k (targetParams s) - getP k (currentParams s)\<bar> < t1 \<and>
               \<bar>getP k (currentVelocity s) + accel\<bar> < t2
            then snapField k (integrated k accel s) else integrated k accel s) \<longleftrightarrow>
         \<bar>getP k (targetParams s) - getP k (currentParams s)\<bar> < t1 \<and>
         \<bar>getP k (currentVelocity s) + accel\<bar> < t2"
    (is "snapped k s (if ?c then _ else _) \<longleftrightarrow> ?c")
proof (cases ?c)
  case True
  then show ?thesis by (simp add: snapped_snapField)
next
  case False
  have "\<not> snapped k s (integrated k accel s)"
  proof
    assume "snapped k s (integrated k accel s)"
    then have "getP k (targetParams s) - getP k (currentParams s) = 0"
      and "getP k (currentVelocity s) + accel = 0"
      unfolding snapped_integrated by blast+
    with assms have ?c by simp
    with False show False ..
  qed
  with False show ?thesis by (simp only: if_False simp_thms)
qed

lemma snapped_iff_linear:
  assumes "mode s \<noteq> Harmonic"
  shows "snapped k s (applySpringForce k s) \<longleftrightarrow>
     \<bar>getP k (targetParams s) - getP k (currentParams s)\<bar> < 0.001 \<and>
     \<bar>getP k (currentVelocity s) +
        ((getP k (targetParams s) - getP k (currentParams s)) * stiffness s
          - getP k (currentVelocity s) * damping s) / mass s\<bar> < 0.001"
  unfolding linear_unfold [OF assms] Let_def
  by (rule snapped_if) simp_all

lemma snapped_iff_harmonic:
  assumes "mode s = Harmonic"
  shows "snapped k s (applySpringForce k s) \<longleftrightarrow>
     (\<bar>getP k (targetParams s) - getP k (currentParams s)\<bar> < 0.00001 \<and>
      \<bar>getP k (currentVelocity s)\<bar> < 0.00001) \<or>
     (\<bar>getP k (targetParams s) - getP k (currentParams s)\<bar> < 0.0001 \<and>
      \<bar>getP k (currentVelocity s) +
        ((getP k (targetParams s) - getP k (currentParams s)) *
           (minStiffness + (maxStiffness - minStiffness) *
              (min \<bar>getP k (targetParams s) - getP k (currentParams s)\<bar> 1) ^ tensionPower)
          - getP k (currentVelocity s) *
            (2 * sqrt (mass s * (minStiffness + (maxStiffness - minStiffness) *
              (min \<bar>getP k (targetParams s) - getP k (currentParams s)\<bar> 1) ^ tensionPower))
             * dampZeta)) / mass s\<bar> < 0.0001)"
    (is "_ \<longleftrightarrow> ?e \<or> ?c")
proof (cases ?e)
  case True
  then have "applySpringForce k s = snapField k s"
    unfolding harmonic_unfold [OF assms] Let_def by (rule if_P)
  with True show ?thesis by (simp only: snapped_snapField [OF refl] simp_thms)
next
  case False
  let ?accel = "((getP k (targetParams s) - getP k (currentParams s)) *
           (minStiffness + (maxStiffness - minStiffness) *
              (min \<bar>getP k (targetParams s) - getP k (currentParams s)\<bar> 1) ^ tensionPower)
          - getP k (currentVelocity s) *
            (2 * sqrt (mass s * (minStiffness + (maxStiffness - minStiffness) *
              (min \<bar>getP k (targetParams s) - getP k (currentParams s)\<bar> 1) ^ tensionPower))
             * dampZeta)) / mass s"
  from False have "applySpringForce k s =
      (if ?c then snapField k (integrated k ?accel s) else integrated k ?accel s)"
    unfolding harmonic_unfold [OF assms] Let_def by (rule if_not_P)
  moreover have "snapped k s (if ?c then snapField k (integrated k ?accel s)
                               else integrated k ?accel s) \<longleftrightarrow> ?c"
    by (rule snapped_if) simp_all
  ultimately show ?thesis using False by (simp only: simp_thms)
qed

text \<open>
  C6. In the linear profile the call ends in a snap exactly when the displacement
  before the step is below 0.001 and the velocity after the step is below 0.001 in
  magnitude (\<open>snapped_iff_linear\<close>). In the harmonic profile the source overrides the
  thresholds to 0.00001 with an early snap, and the final snap test still runs with
  0.0001 (\<open>snapped_iff_harmonic\<close>): a field at distance 0.00005 from its target, at
  rest, is outside the thresholds of 0.00001, and the call puts it on the target with
  velocity zero instead of leaving it at the integrated position.
\<close>

theorem harmonic_snap_at_coarse_threshold:
  "mode (newSketch\<lparr>mode := Harmonic, currentParams := \<lparr>par_a = 0.99995, par_b = 1, par_delta = pi / 2\<rparr>\<rparr>) = Harmonic \<and>
   \<bar>getP KA (targetParams (newSketch\<lparr>mode := Harmonic, currentParams := \<lparr>par_a = 0.99995, par_b = 1, par_delta = pi / 2\<rparr>\<rparr>))
     - getP KA (currentParams (newSketch\<lparr>mode := Harmonic, currentParams := \<lparr>par_a = 0.99995, par_b = 1, par_delta = pi / 2\<rparr>\<rparr>))\<bar>
     = 0.00005 \<and>
   getP KA (currentParams (applySpringForce KA
       (newSketch\<lparr>mode := Harmonic, currentParams := \<lparr>par_a = 0.99995, par_b = 1, par_delta = pi / 2\<rparr>\<rparr>))) = 1 \<and>
   getP KA (currentVelocity (applySpringForce KA
       (newSketch\<lparr>mode := Harmonic, currentParams := \<lparr>par_a = 0.99995, par_b = 1, par_delta = pi / 2\<rparr>\<rparr>))) = 0"
  by (simp add: applySpringForce_def Let_def snapField_def newSketch_def zeroParams_def
      minStiffness_def maxStiffness_def tensionPower_def dampZeta_def power_divide)

text \<open>
  The first step from rest in the harmonic profile, at a distance of at least 1 (where
  the effective stiffness is 1): the velocity has no part in it, so the damping does
  not act, and the displacement is multiplied by \<open>1 - 1 / mass\<close>. For a mass below 1
  the sign of the displacement flips.
\<close>

lemma harmonic_first_step_far:
  assumes "mode s = Harmonic" and "getP k (currentVelocity s) = 0"
    and "1 \<le> \<bar>getP k (targetParams s) - getP k (currentParams s)\<bar>"
  shows "getP k (targetParams (applySpringForce k s)) - getP k (currentParams (applySpringForce k s))
           = (getP k (targetParams s) - getP k (currentParams s)) * (1 - 1 / mass s)"
proof -
  let ?d = "getP k (targetParams s) - getP k (currentParams s)"
  have "applySpringForce k s = integrated k (?d / mass s) s"
    using assms
    by (auto simp: harmonic_unfold Let_def minStiffness_def maxStiffness_def)
  then have "getP k (targetParams (applySpringForce k s))
               - getP k (currentParams (applySpringForce k s)) = ?d - ?d / mass s"
    using assms(2) by (simp add: integrated_def)
  also have "\<dots> = ?d * (1 - 1 / mass s)" by (simp add: right_diff_distrib)
  finally show ?thesis .
qed

lemma harmonic_first_step_overshoots:
  assumes "mode s = Harmonic" and "getP k (currentVelocity s) = 0"
    and "1 \<le> getP k (targetParams s) - getP k (currentParams s)"
    and "0 < mass s" and "mass s < 1"
  shows "getP k (targetParams (applySpringForce k s)) - getP k (currentParams (applySpringForce k s)) < 0"
proof -
  let ?d = "getP k (targetParams s) - getP k (currentParams s)"
  from assms(3) have "1 \<le> \<bar>?d\<bar>" by simp
  from harmonic_first_step_far [OF assms(1,2) this]
  have eq: "getP k (targetParams (applySpringForce k s)) - getP k (currentParams (applySpringForce k s))
           = ?d * (1 - 1 / mass s)" .
  from assms(4,5) have neg: "1 - 1 / mass s < 0" by simp
  from assms(3) have pos: "0 < ?d" by simp
  from pos neg have "?d * (1 - 1 / mass s) < 0" by (rule mult_pos_neg)
  with eq show ?thesis by simp
qed

text \<open>
  C4. The harmonic profile is meant never to move the current value past the target.
  With mass 0.5 and the second keyframe as target, the state at rest on the first
  keyframe has displacement 1 in field b; after one call the field is at 3, one past
  the target 2, and the displacement has gone from 1 to -1.
\<close>

theorem harmonic_overshoot_at_half_mass:
  "getP KB (targetParams (newSketch\<lparr>mode := Harmonic, mass := 0.5,
       targetParams := \<lparr>par_a = 1, par_b = 2, par_delta = pi / 2\<rparr>\<rparr>))
     - getP KB (currentParams (newSketch\<lparr>mode := Harmonic, mass := 0.5,
       targetParams := \<lparr>par_a = 1, par_b = 2, par_delta = pi / 2\<rparr>\<rparr>)) = 1 \<and>
   getP KB (currentVelocity (newSketch\<lparr>mode := Harmonic, mass := 0.5,
       targetParams := \<lparr>par_a = 1, par_b = 2, par_delta = pi / 2\<rparr>\<rparr>)) = 0 \<and>
   getP KB (currentParams (applySpringForce KB (newSketch\<lparr>mode := Harmonic, mass := 0.5,
       targetParams := \<lparr>par_a = 1, par_b = 2, par_delta = pi / 2\<rparr>\<rparr>))) = 3 \<and>
   getP KB (targetParams (applySpringForce KB (newSketch\<lparr>mode := Harmonic, mass := 0.5,
       targetParams := \<lparr>par_a = 1, par_b = 2, par_delta = pi / 2\<rparr>\<rparr>))) = 2"
  by (simp add: applySpringForce_def Let_def newSketch_def zeroParams_def
      minStiffness_def maxStiffness_def tensionPower_def dampZeta_def)

section \<open>Properties of the state machine\<close>

lemma snapField_frame:
  "targetParams (snapField k s) = targetParams s \<and> mode (snapField k s) = mode s \<and>
   state (snapField k s) = state s \<and> timer (snapField k s) = timer s \<and>
   time_t (snapField k s) = time_t s \<and>
   holdDuration (snapField k s) = holdDuration s \<and>
   transitionDuration (snapField k s) = transitionDuration s \<and>
   mass (snapField k s) = mass s"
  by (simp add: snapField_def)





section \<open>Properties of drawing\<close>

text \<open>
  C10. The commands drawn in harmonic mode depend on the sketch only through the
  accumulated time \<open>t\<close>: two states with the same \<open>t\<close> give the same list of drawing
  commands for the same canvas size and theme, whatever their current and target
  parameters, velocity and sequencer cursor are.
\<close>

theorem drawHarmonic_independent:
  "time_t s1 = time_t s2 \<Longrightarrow> drawHarmonic s1 width height theme = drawHarmonic s2 width height theme"
  by (simp add: drawHarmonic_def)

text \<open>Two states of the sketch that agree on nothing but \<open>t\<close> and the configuration.\<close>

theorem drawHarmonic_independent_witness:
  "drawHarmonic
     (newSketch\<lparr>currentPhaseIndex := 3, direction := - 1,
                currentParams := \<lparr>par_a = 2, par_b = 3.5, par_delta = 0\<rparr>,
                currentVelocity := \<lparr>par_a = 0.1, par_b = 0.2, par_delta = 0\<rparr>,
                targetParams := \<lparr>par_a = 3, par_b = 4, par_delta = pi / 2\<rparr>\<rparr>)
     1080 1350 \<lparr>foreground = ''#E4FF60'', background = ''#BBBBBB''\<rparr>
   = drawHarmonic newSketch 1080 1350 \<lparr>foreground = ''#E4FF60'', background = ''#BBBBBB''\<rparr>"
  by (rule drawHarmonic_independent) simp

section \<open>Properties of double-precision rounding\<close>

lemma rne_cases: "rne y = \<lfloor>y\<rfloor> \<or> rne y = \<lfloor>y\<rfloor> + 1"
  by (simp add: rne_def Let_def)

lemma rne_err: "\<bar>of_int (rne y) - y\<bar> \<le> 1 / 2"
proof -
  have "of_int \<lfloor>y\<rfloor> \<le> y" "y < of_int \<lfloor>y\<rfloor> + 1" by linarith+
  then show ?thesis
    by (auto simp: rne_def Let_def abs_le_iff)
qed

lemma rne_of_int [simp]: "rne (of_int n) = n"
  by (simp add: rne_def)

lemma rne_ge: "of_int n \<le> y \<Longrightarrow> n \<le> rne y"
proof -
  assume "of_int n \<le> y"
  then have "n \<le> \<lfloor>y\<rfloor>" by (simp add: le_floor_iff)
  with rne_cases [of y] show ?thesis by auto
qed

lemma fl_zero [simp]: "fl 0 = 0"
  by (simp add: fl_def)

lemma two_powr_nat: "(2::real) powr of_int (int n) = 2 ^ n"
  by (simp add: powr_realpow)

lemma two_powr_neg_nat: "(2::real) powr of_int (- int n) = 1 / 2 ^ n"
  by (simp add: powr_minus powr_realpow divide_inverse)

lemma fl_binade:
  assumes "2 ^ e \<le> x" and "x < 2 ^ Suc e" and "e \<le> 52"
  shows "fl x = of_int (rne (x * 2 ^ (52 - e))) / 2 ^ (52 - e)"
proof -
  have "(0::real) < 2 ^ e" by simp
  with assms(1) have pos: "0 < x" by linarith
  have up: "(2::real) powr of_int (int e + 1) = 2 ^ Suc e"
    using two_powr_nat [of "Suc e"] by (simp only: of_nat_Suc add.commute)
  have "2 powr of_int (int e) \<le> x \<and> x < 2 powr of_int (int e + 1)"
    using assms(1,2) by (simp only: two_powr_nat up simp_thms)
  then have fl1: "\<lfloor>log 2 x\<rfloor> = int e"
    using floor_log_eq_powr_iff [of x 2 "int e"] pos by simp
  have a: "52 - int e = int (52 - e)" using assms(3) by simp
  have b: "int e - 52 = - int (52 - e)" using assms(3) by simp
  from pos have ne: "x \<noteq> 0" and ab: "\<bar>x\<bar> = x" by simp_all
  have "fl x = of_int (rne (x * 2 powr of_int (52 - int e))) * 2 powr of_int (int e - 52)"
    unfolding fl_def Let_def ab fl1 using ne by (simp only: if_False)
  also have "\<dots> = of_int (rne (x * 2 ^ (52 - e))) * (1 / 2 ^ (52 - e))"
    unfolding a b two_powr_nat two_powr_neg_nat ..
  finally show ?thesis by (simp only: times_divide_eq_right mult_1_right)
qed

lemma two_powr_52: "(2::real) powr of_int 52 = 2 ^ 52"
  using two_powr_nat [of 52] by (simp only: of_nat_numeral)

lemma fl_err:
  assumes "0 < x"
  shows "\<bar>fl x - x\<bar> \<le> x / 2 ^ 53"
proof -
  define e where "e = \<lfloor>log 2 x\<rfloor>"
  have e: "2 powr of_int e \<le> x"
    using floor_log_eq_powr_iff [of x 2 e] assms by (simp add: e_def)
  define y where "y = x * 2 powr of_int (52 - e)"
  define u where "u = (2::real) powr of_int (e - 52)"
  have upos: "0 < u" by (simp add: u_def)
  from assms have ne: "x \<noteq> 0" and ab: "\<bar>x\<bar> = x" by simp_all
  have flx: "fl x = of_int (rne y) * u"
    unfolding fl_def Let_def ab e_def [symmetric] y_def [symmetric] u_def [symmetric]
    using ne by (simp only: if_False)
  have "2 powr of_int (52 - e) * u = (2::real) powr (of_int (52 - e) + of_int (e - 52))"
    unfolding u_def by (rule powr_add [symmetric])
  also have "of_int (52 - e) + of_int (e - 52) = (0::real)" by simp
  finally have inv: "2 powr of_int (52 - e) * u = 1" by simp
  have xy: "y * u = x"
    unfolding y_def using inv by (simp only: mult.assoc mult_1_right)
  have "fl x - x = of_int (rne y) * u - y * u"
    by (simp only: flx xy)
  then have "fl x - x = (of_int (rne y) - y) * u"
    by (simp only: left_diff_distrib)
  then have "\<bar>fl x - x\<bar> = \<bar>of_int (rne y) - y\<bar> * u"
    using upos by (simp only: abs_mult abs_of_pos)
  also have "\<dots> \<le> 1 / 2 * u"
    using rne_err upos by (rule mult_right_mono [OF _ less_imp_le])
  finally have step: "\<bar>fl x - x\<bar> \<le> 1 / 2 * u" .
  define a where "a = (2::real) powr of_int e"
  have u_eq: "u = a / 2 ^ 52"
  proof -
    have "u = (2::real) powr (of_int e - of_int 52)" unfolding u_def by (simp only: of_int_diff)
    also have "\<dots> = 2 powr of_int e / 2 powr of_int 52" by (rule powr_diff)
    finally show ?thesis by (simp only: two_powr_52 a_def)
  qed
  have "1 / 2 * u = a / 2 ^ 53" unfolding u_eq by simp
  also have "\<dots> \<le> x / 2 ^ 53"
    using e unfolding a_def [symmetric] by (rule divide_right_mono) simp
  finally have "1 / 2 * u \<le> x / 2 ^ 53" .
  with step show ?thesis by linarith
qed

lemma fl_nat:
  assumes "n < 2 ^ 53"
  shows "fl (real n) = real n"
proof (cases "n = 0")
  case True
  then show ?thesis by simp
next
  case False
  then have pos: "0 < real n" and one: "1 \<le> real n" by simp_all
  define e where "e = \<lfloor>log 2 (real n)\<rfloor>"
  have e: "2 powr of_int e \<le> real n" "real n < 2 powr of_int (e + 1)"
    using floor_log_eq_powr_iff [of "real n" 2 e] pos by (simp_all add: e_def)
  have "(2::real) powr 0 \<le> real n" using one by simp
  also note e(2)
  finally have "(0::real) < of_int (e + 1)" by (simp only: powr_less_cancel_iff one_less_numeral_iff semiring_norm)
  then have e0: "0 \<le> e" by simp
  have "real n < 2 ^ 53" using assms by (metis of_nat_less_iff of_nat_numeral of_nat_power)
  also have "(2::real) ^ 53 = 2 powr of_int (int 53)" by (simp only: two_powr_nat)
  finally have "2 powr of_int e < (2::real) powr of_int (int 53)" using e(1) by linarith
  then have "of_int e < (of_int (int 53) :: real)"
    by (simp only: powr_less_cancel_iff one_less_numeral_iff semiring_norm)
  then have e52: "e \<le> 52" by simp
  define m where "m = nat e"
  have me: "e = int m" using e0 by (simp add: m_def)
  have m52: "m \<le> 52" using e52 me by simp
  have lo: "2 ^ m \<le> real n" using e(1) unfolding me two_powr_nat .
  have "int m + 1 = int (Suc m)" by simp
  then have hi: "real n < 2 ^ Suc m" using e(2) unfolding me by (simp only: two_powr_nat)
  have "real n * 2 ^ (52 - m) = of_int (int (n * 2 ^ (52 - m)))" by simp
  then have "rne (real n * 2 ^ (52 - m)) = int (n * 2 ^ (52 - m))"
    by (simp only: rne_of_int)
  then have "fl (real n) = of_int (int (n * 2 ^ (52 - m))) / 2 ^ (52 - m)"
    by (simp only: fl_binade [OF lo hi m52])
  then show ?thesis by simp
qed

section \<open>Properties of the capture and export pipeline\<close>

text \<open>
  The frame interval is the binary64 number next above 50/3, and the boundaries the
  loop computes lie within a billionth of a millisecond of the exact multiples of 50/3.
  The boundary of frame 600 is not below the total duration, and the boundary of frame
  15 is above 250 ms.
\<close>

lemma interval_val: "interval = 4691249611844267 / 2 ^ 48"
proof -
  have "fl (1000 / 60) = of_int (rne (1000 / 60 * 2 ^ (52 - 4))) / 2 ^ (52 - 4)"
    by (rule fl_binade) simp_all
  moreover have "rne (1000 / 60 * 2 ^ (52 - 4)) = 4691249611844267"
    by (simp add: rne_def Let_def)
  ultimately show ?thesis by (simp add: interval_def fps_def)
qed

lemma boundary_0 [simp]: "boundary 0 = 0"
  by (simp add: boundary_def)

lemma interval_gap: "interval - 50 / 3 = 1 / (3 * 2 ^ 48)"
  by (simp add: interval_val)

lemma boundary_close:
  assumes "k \<le> 600"
  shows "\<bar>boundary k - real k * (50 / 3)\<bar> \<le> 1 / 10 ^ 9"
proof (cases "k = 0")
  case True
  then show ?thesis by simp
next
  case False
  then have kpos: "0 < real k" by simp
  define x where "x = real k * interval"
  have ipos: "0 < interval" by (simp add: interval_val)
  have xpos: "0 < x" unfolding x_def using kpos ipos by (rule mult_pos_pos)
  have k600: "real k \<le> 600" using assms by simp
  have i17: "interval \<le> 17" by (simp add: interval_val)
  have "x \<le> 600 * 17"
    unfolding x_def using k600 i17 kpos ipos by (intro mult_mono) simp_all
  then have xb: "x / 2 ^ 53 \<le> 10200 / 2 ^ 53" by (simp add: divide_right_mono)
  have "x - real k * (50 / 3) = real k * (interval - 50 / 3)"
    by (simp add: x_def algebra_simps)
  also have "\<dots> = real k * (1 / (3 * 2 ^ 48))" by (simp only: interval_gap)
  finally have d: "x - real k * (50 / 3) = real k * (1 / (3 * 2 ^ 48))" .
  have "real k * (1 / (3 * 2 ^ 48)) \<le> 600 * (1 / (3 * 2 ^ 48))"
    using k600 by (intro mult_right_mono) simp_all
  with d kpos have d2: "\<bar>x - real k * (50 / 3)\<bar> \<le> 600 * (1 / (3 * 2 ^ 48))" by simp
  from fl_err [OF xpos] xb have "\<bar>fl x - x\<bar> \<le> 10200 / 2 ^ 53" by linarith
  with d2 have "\<bar>fl x - real k * (50 / 3)\<bar> \<le> 10200 / 2 ^ 53 + 600 * (1 / (3 * 2 ^ 48))"
    by linarith
  also have "\<dots> \<le> 1 / 10 ^ 9" by simp
  finally show ?thesis by (simp only: boundary_def x_def)
qed

lemma boundary_600: "10000 \<le> boundary 600"
proof -
  have "fl (600 * interval) = of_int (rne (600 * interval * 2 ^ (52 - 13))) / 2 ^ (52 - 13)"
    by (rule fl_binade) (simp_all add: interval_val)
  moreover have "10000 * 2 ^ 39 \<le> rne (600 * interval * 2 ^ (52 - 13))"
    by (rule rne_ge) (simp add: interval_val)
  then have "of_int (10000 * 2 ^ 39) \<le> (of_int (rne (600 * interval * 2 ^ (52 - 13))) :: real)"
    by (simp only: of_int_le_iff)
  then have "(10000::real) \<le> of_int (rne (600 * interval * 2 ^ (52 - 13))) / 2 ^ (52 - 13)"
    by (simp add: le_divide_eq)
  ultimately show ?thesis by (simp add: boundary_def)
qed

lemma boundary_15: "boundary 15 = 250 + 1 / 2 ^ 45"
proof -
  have "fl (15 * interval) = of_int (rne (15 * interval * 2 ^ (52 - 7))) / 2 ^ (52 - 7)"
    by (rule fl_binade) (simp_all add: interval_val)
  moreover have "rne (15 * interval * 2 ^ (52 - 7)) = 250 * 2 ^ 45 + 1"
    by (simp add: rne_def Let_def interval_val)
  ultimately show ?thesis by (simp add: boundary_def)
qed

lemma captureFrame_cases:
  obtains
    (stop) "elapsedAt (startTime (fst cf)) t \<ge> totalDuration"
           "captureFrame t cf = ((fst cf)\<lparr>encoding := True\<rparr>, snd cf)"
  | (snap) "elapsedAt (startTime (fst cf)) t < totalDuration"
           "elapsedAt (startTime (fst cf)) t \<ge> boundary (frameCount (fst cf))"
           "captureFrame t cf = ((fst cf)\<lparr>frameCount := frameCount (fst cf) + 1\<rparr>, snd cf @ [t])"
  | (skip) "elapsedAt (startTime (fst cf)) t < totalDuration"
           "elapsedAt (startTime (fst cf)) t < boundary (frameCount (fst cf))"
           "captureFrame t cf = cf"
  by (cases "elapsedAt (startTime (fst cf)) t \<ge> totalDuration";
      cases "elapsedAt (startTime (fst cf)) t \<ge> boundary (frameCount (fst cf))")
     (auto simp: captureFrame_def Let_def elapsedAt_def boundary_def)

lemma frame_bound:
  assumes "boundary n \<le> e" and "e < totalDuration" and "n \<le> 600"
  shows "n < 600"
proof (rule ccontr)
  assume "\<not> n < 600"
  with assms(3) have "n = 600" by simp
  with assms(1,2) boundary_600 show False by (simp add: totalDuration_def)
qed

lemma captureFrame_inv:
  assumes "captureInv start cf"
  shows "captureInv start (captureFrame t cf)"
proof (cases t cf rule: captureFrame_cases)
  case stop
  with assms show ?thesis by (simp add: captureInv_def)
next
  case snap
  from assms have st: "startTime (fst cf) = start" and le: "frameCount (fst cf) \<le> 600"
    by (simp_all add: captureInv_def)
  from frame_bound [OF snap(2,1) le] have "frameCount (fst cf) < 600" .
  with assms snap st show ?thesis
    by (simp add: captureInv_def enumerate_append_eq)
next
  case skip
  with assms show ?thesis by simp
qed

lemma runCapture_inv:
  "captureInv start cf \<Longrightarrow> captureInv start (runCapture ts cf)"
  by (induction ts arbitrary: cf) (simp_all add: captureFrame_inv)

lemma runCapture_subseq:
  "\<exists>xs. snd (runCapture ts cf) = snd cf @ xs \<and> subseq xs ts"
proof (induction ts arbitrary: cf)
  case Nil
  show ?case by simp
next
  case (Cons t ts)
  show ?case
  proof (cases "encoding (fst cf)")
    case True
    then show ?thesis by simp
  next
    case False
    from Cons.IH [of "captureFrame t cf"] obtain xs where
      xs: "snd (runCapture ts (captureFrame t cf)) = snd (captureFrame t cf) @ xs" "subseq xs ts"
      by blast
    show ?thesis
    proof (cases t cf rule: captureFrame_cases)
      case snap
      with xs False show ?thesis by (auto intro: exI [of _ "t # xs"])
    next
      case stop
      with xs False show ?thesis by (auto intro: exI [of _ xs])
    next
      case skip
      with xs False show ?thesis by (auto intro: exI [of _ xs])
    qed
  qed
qed

lemma runCapture_encoding: "encoding (fst cf) \<Longrightarrow> runCapture ts cf = cf"
  by (cases ts) simp_all

lemma boundary_bounds:
  assumes "k \<le> 600"
  shows "real k * (50 / 3) - 1 / 10 ^ 9 \<le> boundary k"
    and "boundary k \<le> real k * (50 / 3) + 1 / 10 ^ 9"
  using boundary_close [OF assms] by linarith+

lemma boundary_step:
  assumes "k < 600"
  shows "boundary k + paceLimit \<le> boundary (Suc k)"
proof -
  from assms have "k \<le> 600" "Suc k \<le> 600" by simp_all
  from boundary_bounds(2) [OF this(1)] boundary_bounds(1) [OF this(2)]
  have a: "boundary k \<le> real k * (50 / 3) + 1 / 10 ^ 9"
    and b: "real (Suc k) * (50 / 3) - 1 / 10 ^ 9 \<le> boundary (Suc k)" .
  define c where "c = real k * (50 / 3)"
  have "real (Suc k) * (50 / 3) = c + 50 / 3" by (simp add: c_def algebra_simps)
  with a b have "boundary k \<le> c + 1 / 10 ^ 9" and "c + 50 / 3 - 1 / 10 ^ 9 \<le> boundary (Suc k)"
    by (simp_all only: c_def)
  then show ?thesis unfolding paceLimit_def by simp
qed

lemma boundary_before_end:
  assumes "k \<le> 599"
  shows "boundary k + paceLimit < totalDuration"
proof -
  from assms have "k \<le> 600" by simp
  from boundary_bounds(2) [OF this] have "boundary k \<le> real k * (50 / 3) + 1 / 10 ^ 9" .
  moreover from assms have "real k \<le> 599" by simp
  then have "real k * (50 / 3) \<le> 599 * (50 / 3)" by (intro mult_right_mono) simp_all
  ultimately show ?thesis unfolding paceLimit_def totalDuration_def by simp
qed

lemma runCapture_dense:
  assumes "startTime (fst cf) = start" and "\<not> encoding (fst cf)"
    and "frameCount (fst cf) \<le> 600"
    and "prev < boundary (frameCount (fst cf))"
    and "callbacksDense start prev ts" and "reachesTotal start ts"
  shows "frameCount (fst (runCapture ts cf)) = 600 \<and> encoding (fst (runCapture ts cf))"
  using assms
proof (induction ts arbitrary: prev cf)
  case Nil
  then show ?case by (simp add: reachesTotal_def)
next
  case (Cons t ts)
  let ?e = "elapsedAt start t"
  from Cons.prems have gap: "?e - prev \<le> paceLimit" and dense: "callbacksDense start ?e ts"
    by simp_all
  show ?case
  proof (cases t cf rule: captureFrame_cases)
    case stop
    have "\<not> frameCount (fst cf) \<le> 599"
    proof
      assume "frameCount (fst cf) \<le> 599"
      from boundary_before_end [OF this] Cons.prems(4) gap stop(1) Cons.prems(1)
      show False by simp
    qed
    with Cons.prems(3) have "frameCount (fst cf) = 600" by simp
    with stop Cons.prems(2) show ?thesis by (simp add: runCapture_encoding)
  next
    case snap
    let ?cf = "((fst cf)\<lparr>frameCount := frameCount (fst cf) + 1\<rparr>, snd cf @ [t])"
    from frame_bound [OF snap(2,1) Cons.prems(3)] have lt: "frameCount (fst cf) < 600" .
    have reach: "reachesTotal start ts"
      using Cons.prems(1,6) snap(1) by (simp add: reachesTotal_def)
    have "frameCount (fst (runCapture ts ?cf)) = 600 \<and> encoding (fst (runCapture ts ?cf))"
    proof (rule Cons.IH [of ?cf ?e])
      show "startTime (fst ?cf) = start" using Cons.prems(1) by simp
      show "\<not> encoding (fst ?cf)" using Cons.prems(2) by simp
      show "frameCount (fst ?cf) \<le> 600" using lt by simp
      show "?e < boundary (frameCount (fst ?cf))"
        using boundary_step [OF lt] Cons.prems(4) gap by simp
      show "callbacksDense start ?e ts" by (rule dense)
      show "reachesTotal start ts" by (rule reach)
    qed
    with snap(3) Cons.prems(2) show ?thesis by simp
  next
    case skip
    have reach: "reachesTotal start ts"
      using Cons.prems(1,6) skip(1) by (simp add: reachesTotal_def)
    have "frameCount (fst (runCapture ts cf)) = 600 \<and> encoding (fst (runCapture ts cf))"
    proof (rule Cons.IH [of cf ?e])
      show "startTime (fst cf) = start" by (rule Cons.prems(1))
      show "\<not> encoding (fst cf)" by (rule Cons.prems(2))
      show "frameCount (fst cf) \<le> 600" by (rule Cons.prems(3))
      show "?e < boundary (frameCount (fst cf))" using skip(2) Cons.prems(1) by simp
      show "callbacksDense start ?e ts" by (rule dense)
      show "reachesTotal start ts" by (rule reach)
    qed
    with skip(3) Cons.prems(2) show ?thesis by simp
  qed
qed

lemma captureInv_start: "captureInv start (newLoop start b, [])"
  by (simp add: captureInv_def newLoop_def)

lemma boundary_1: "paceLimit < boundary 1"
  using boundary_bounds(1) [of 1] unfolding paceLimit_def by simp

lemma runCapture_wellPaced:
  assumes "wellPaced start ts" and "reachesTotal start ts"
  shows "frameCount (fst (runCapture ts (newLoop start b, []))) = 600 \<and>
         encoding (fst (runCapture ts (newLoop start b, [])))"
proof (cases ts)
  case Nil
  with assms show ?thesis by simp
next
  case (Cons t rest)
  let ?e = "elapsedAt start t"
  from Cons assms have t: "0 \<le> ?e" "?e \<le> paceLimit" and dense: "callbacksDense start ?e rest"
    by simp_all
  have lt: "?e < totalDuration"
    using t(2) by (simp add: paceLimit_def totalDuration_def)
  have reach: "reachesTotal start rest"
    using assms(2) Cons lt by (simp add: reachesTotal_def)
  let ?cf = "((newLoop start b)\<lparr>frameCount := 1\<rparr>, [t])"
  have step: "captureFrame t (newLoop start b, []) = ?cf"
    using t(1) lt by (simp add: captureFrame_def newLoop_def Let_def elapsedAt_def)
  have "frameCount (fst (runCapture rest ?cf)) = 600 \<and> encoding (fst (runCapture rest ?cf))"
  proof (rule runCapture_dense [of ?cf start ?e])
    show "startTime (fst ?cf) = start" by (simp add: newLoop_def)
    show "\<not> encoding (fst ?cf)" by (simp add: newLoop_def)
    show "frameCount (fst ?cf) \<le> 600" by simp
    show "?e < boundary (frameCount (fst ?cf))" using t(2) boundary_1 by simp
    show "callbacksDense start ?e rest" by (rule dense)
    show "reachesTotal start rest" by (rule reach)
  qed
  with Cons step show ?thesis by (simp add: newLoop_def)
qed

lemma fl_5000: "fl 5000 = 5000"
  using fl_nat [of 5000] by simp

lemma fl_10000: "fl 10000 = 10000"
  using fl_nat [of 10000] by simp

lemma fl_250: "fl 250 = 250"
  using fl_nat [of 250] by simp

lemma boundary_1_le: "fl interval \<le> 17"
  using boundary_bounds(2) [of 1] by (simp add: boundary_def)

text \<open>
  At an elapsed time of exactly 250 ms with 15 snapshots taken the loop takes none:
  the computed boundary is 250.00000000000003.
\<close>

lemma gate_rounds_up_at_250:
  "captureFrame 250 (\<lparr>startTime = 0, frameCount = 15, bitrate = b, encoding = False\<rparr>, fs)
     = (\<lparr>startTime = 0, frameCount = 15, bitrate = b, encoding = False\<rparr>, fs)"
  using boundary_15
  by (simp add: captureFrame_def Let_def totalDuration_def fl_250 boundary_def)

text \<open>
  C1, as amended. For a capture of 10 s at 60 frames per second and any sequence of
  callback timestamps, the loop takes at most one snapshot per callback (the snapshots
  are a subsequence of the callbacks), the snapshot with index \<open>k\<close> is taken at a
  callback whose computed elapsed time has reached the computed boundary of frame
  \<open>k\<close>, and there are at most 600 snapshots. There are exactly 600, and the loop has
  gone over to encoding, when the elapsed time of the first callback is between 0 and
  16.66 ms, the elapsed time of every later callback exceeds that of the callback
  before it by at most 16.66 ms, and the elapsed time of some callback reaches
  10000 ms.
\<close>

theorem runCapture_snapshots:
  "length (snd (runCapture ts (newLoop start b, []))) \<le> 600 \<and>
   frameCount (fst (runCapture ts (newLoop start b, [])))
     = length (snd (runCapture ts (newLoop start b, []))) \<and>
   subseq (snd (runCapture ts (newLoop start b, []))) ts \<and>
   list_all (\<lambda>(k, t). elapsedAt start t \<ge> boundary k)
     (enumerate 0 (snd (runCapture ts (newLoop start b, [])))) \<and>
   (wellPaced start ts \<and> reachesTotal start ts \<longrightarrow>
      length (snd (runCapture ts (newLoop start b, []))) = 600 \<and>
      encoding (fst (runCapture ts (newLoop start b, []))))"
proof -
  let ?r = "runCapture ts (newLoop start b, [])"
  have inv: "captureInv start ?r"
    by (rule runCapture_inv [OF captureInv_start])
  then have cnt: "frameCount (fst ?r) = length (snd ?r)" and le: "frameCount (fst ?r) \<le> 600"
    and tm: "list_all (\<lambda>(k, t). elapsedAt start t \<ge> boundary k) (enumerate 0 (snd ?r))"
    by (simp_all add: captureInv_def)
  from runCapture_subseq [of ts "(newLoop start b, [])"] have sub: "subseq (snd ?r) ts"
    by auto
  have "length (snd ?r) = 600 \<and> encoding (fst ?r)"
    if "wellPaced start ts" and "reachesTotal start ts"
    using runCapture_wellPaced [OF that, of b] cnt by simp
  with cnt le tm sub show ?thesis by simp
qed

lemma elapsed_tens:
  assumes "j \<le> 2000"
  shows "elapsedAt 0 (real j * 10) = real j * 10"
proof -
  have "j * 10 < 2 ^ 53" using assms by simp
  from fl_nat [OF this] show ?thesis by (simp add: elapsedAt_def)
qed

lemma dense_progression:
  assumes "n \<le> 2000"
  shows "callbacksDense 0 (real i * 10) (map (\<lambda>j. real j * 10) [Suc i ..< n])"
proof (induction "n - Suc i" arbitrary: i)
  case 0
  then show ?case by simp
next
  case (Suc m)
  then have lt: "Suc i < n" and m: "m = n - Suc (Suc i)" by simp_all
  from lt assms have "Suc i \<le> 2000" by simp
  from elapsed_tens [OF this] have el: "elapsedAt 0 (real (Suc i) * 10) = real (Suc i) * 10" .
  from lt have "[Suc i ..< n] = Suc i # [Suc (Suc i) ..< n]" by (rule upt_conv_Cons)
  moreover have "callbacksDense 0 (real (Suc i) * 10) (map (\<lambda>j. real j * 10) [Suc (Suc i) ..< n])"
    by (rule Suc.hyps(1) [OF m])
  ultimately show ?case using el by (simp add: paceLimit_def algebra_simps)
qed

text \<open>Callbacks every 10 ms from the start to 10000 ms.\<close>

theorem runCapture_snapshots_witness:
  "length (snd (runCapture (map (\<lambda>j. real j * 10) [0 ..< 1001]) (newLoop 0 25000000, []))) = 600 \<and>
   encoding (fst (runCapture (map (\<lambda>j. real j * 10) [0 ..< 1001]) (newLoop 0 25000000, [])))"
proof -
  let ?ts = "map (\<lambda>j. real j * 10) [0 ..< 1001]"
  have split: "[0 ..< 1001] = 0 # [Suc 0 ..< 1001]" by (rule upt_conv_Cons) simp
  have "callbacksDense 0 (real 0 * 10) (map (\<lambda>j. real j * 10) [Suc 0 ..< 1001])"
    by (rule dense_progression) simp
  then have paced: "wellPaced 0 ?ts"
    unfolding split using elapsed_tens [of 0] by (simp add: paceLimit_def)
  have "(1000::nat) \<in> set [0 ..< 1001]" by simp
  then have "real 1000 * 10 \<in> set ?ts" unfolding set_map by (rule imageI)
  moreover have "elapsedAt 0 (real 1000 * 10) \<ge> totalDuration"
    using elapsed_tens [of 1000] by (simp add: totalDuration_def)
  ultimately have reach: "reachesTotal 0 ?ts"
    unfolding reachesTotal_def list_ex_iff by (rule bexI [rotated])
  from runCapture_snapshots [of ?ts 0 25000000] paced reach show ?thesis by blast
qed

text \<open>
  Callbacks at 0, 5000 and 10000 ms increase strictly and reach the total duration;
  the loop takes two snapshots.
\<close>

theorem sparse_callbacks_counterexample:
  "sorted_wrt (<) [0, 5000, 10000 :: real] \<and> reachesTotal 0 [0, 5000, 10000] \<and>
   length (snd (runCapture [0, 5000, 10000] (newLoop 0 25000000, []))) = 2 \<and>
   encoding (fst (runCapture [0, 5000, 10000] (newLoop 0 25000000, [])))"
  using boundary_1_le
  by (simp add: reachesTotal_def elapsedAt_def captureFrame_def newLoop_def Let_def
      totalDuration_def fl_5000 fl_10000)

text \<open>
  \<open>startRecording\<close> has no guard on \<open>isRecording\<close> of its own: with the canvas
  mounted and the encoder loaded it empties the snapshot sequence and adds a loop,
  whatever is running. The rejection of a second export is the guard of
  \<open>handleExport\<close>.
\<close>

lemma startRecording_starts:
  "canvasPresent r \<Longrightarrow> loaded r \<Longrightarrow>
   startRecording b now r =
     r\<lparr>isRecording := True, frames := [], loops := loops r @ [newLoop now b]\<rparr>"
  by (simp add: startRecording_def)

text \<open>The guard of \<open>handleExport\<close>: a request made while \<open>isRecording\<close> is true changes nothing.\<close>

lemma handleExport_guard: "isRecording (recorder p) \<Longrightarrow> handleExport p = p"
  by (simp add: handleExport_def)

text \<open>
  Two requests on the idle page, both before the first timeout fires: the second
  passes the guard, since \<open>isRecording\<close> is still false.
\<close>

lemma two_requests_pending:
  "handleExport (handleExport idlePage) =
     idlePage\<lparr>resetKey := 2, pendingStarts := [(25000000, True), (25000000, True)]\<rparr>"
  by (simp add: handleExport_def idlePage_def)

lemma first_start:
  "fireTimeout 150 (handleExport (handleExport idlePage)) =
     \<lparr>recorder = \<lparr>isRecording = True, loaded = True, canvasPresent = True, frames = [],
                  alerts = [], loops = [newLoop 150 25000000]\<rparr>,
      resetKey = 2, quality = HQ, pendingStarts = [(25000000, True)]\<rparr>"
  unfolding two_requests_pending
  by (simp add: fireTimeout_def idlePage_def startRecording_def)

lemma fl_10: "fl 10 = 10"
  using fl_nat [of 10] by simp

lemma first_snapshot:
  "toBlobCallback (Some 160) (animationFrame 0 160
       \<lparr>isRecording = True, loaded = True, canvasPresent = True, frames = [],
        alerts = [], loops = [newLoop 150 25000000]\<rparr>) =
     \<lparr>isRecording = True, loaded = True, canvasPresent = True, frames = [160],
      alerts = [], loops = [(newLoop 150 25000000)\<lparr>frameCount := 1\<rparr>]\<rparr>"
  by (simp add: toBlobCallback_def animationFrame_def captureFrame_def Let_def newLoop_def
      totalDuration_def fl_10)

text \<open>
  C7. A second start while a capture session is active is meant to be rejected
  without touching the session. Two export requests are made on the idle page within
  the 150 ms before the first start; the first start fires at 150 ms, its loop takes a
  snapshot at 160 ms and the blob arrives. The recording is now active with one
  snapshot. When the second timeout fires at 250 ms, \<open>startRecording\<close> runs again: the
  snapshot sequence is emptied and a second loop is added beside the first.
\<close>

theorem second_start_while_recording:
  "(let p3 = fireTimeout 150 (handleExport (handleExport idlePage));
        r3 = toBlobCallback (Some 160) (animationFrame 0 160 (recorder p3));
        p4 = fireTimeout 250 (p3\<lparr>recorder := r3\<rparr>)
    in isRecording r3 \<and> frames r3 = [160] \<and> map frameCount (loops r3) = [1] \<and>
       isRecording (recorder p4) \<and> frames (recorder p4) = [] \<and>
       map frameCount (loops (recorder p4)) = [1, 0] \<and>
       map startTime (loops (recorder p4)) = [150, 250])"
  unfolding Let_def first_start Page.simps first_snapshot
  by (simp add: fireTimeout_def startRecording_def newLoop_def)

text \<open>
  C8. When the encoder is not loaded, \<open>startRecording\<close> raises the alert and returns:
  the recording flag, the snapshot sequence and the list of loops are unchanged.
\<close>

theorem startRecording_not_loaded:
  "\<not> loaded r \<Longrightarrow>
     startRecording b now r =
       r\<lparr>alerts := alerts r @ [''Video encoder still loading, please wait...'']\<rparr> \<and>
     isRecording (startRecording b now r) = isRecording r \<and>
     frames (startRecording b now r) = frames r \<and>
     loops (startRecording b now r) = loops r"
  by (simp add: startRecording_def)

text \<open>A start on an idle recorder whose encoder has not loaded.\<close>

theorem startRecording_not_loaded_witness:
  "startRecording 25000000 0
     \<lparr>isRecording = False, loaded = False, canvasPresent = True, frames = [], alerts = [],
      loops = []\<rparr>
   = \<lparr>isRecording = False, loaded = False, canvasPresent = True, frames = [],
      alerts = [''Video encoder still loading, please wait...''], loops = []\<rparr>"
  using startRecording_not_loaded
    [of "\<lparr>isRecording = False, loaded = False, canvasPresent = True, frames = [], alerts = [],
      loops = []\<rparr>" 25000000 0]
  by simp

end
